theory Spec2Isabelle
  imports Main "HOL-Library.AList" "HOL-Library.Multiset"
begin

section \<open>Data model\<close>

text \<open>
  Amounts are ethers \<open>BigNumber\<close>s: signed integers of unbounded size, so \<open>int\<close>.
  Chain ids, block numbers and token counts are non-negative whole numbers, so \<open>nat\<close>.

  A JavaScript object used as a dictionary is an association list read through
  \<open>map_of\<close> (the first binding of a key is its value); \<open>AList.update\<close> overwrites the
  binding of a key or appends a new one, as an assignment \<open>obj[k] = v\<close> does.
  A value that may be \<open>undefined\<close> is an \<open>option\<close>. A \<open>BigNumber\<close> is an object, so it is
  truthy whenever it is defined, also when it is zero.
\<close>

text \<open>
  A token address is the string the code uses as the key of an object: two spellings of
  one address (upper and lower case digits) are two keys.
\<close>

type_synonym address = string

text \<open>
  Modelled from the spec: \<open>compareAddresses\<close> (module utils), with which the leaf builder
  sorts token addresses, is not among the sources. The specification says tokens are
  sorted by ascending address; an address is written \<open>0x\<close> followed by hexadecimal
  digits, so the comparison is that of the numbers the strings denote, which
  \<open>addressValue\<close> reads (upper and lower case digits alike; the token keys of a ledger
  are addresses, and a character that is no hexadecimal digit reads as 0).
\<close>

definition hexDigit :: "char \<Rightarrow> nat" where
  "hexDigit c =
     (let n = (of_char c :: nat) in
      if 48 \<le> n \<and> n \<le> 57 then n - 48
      else if 97 \<le> n \<and> n \<le> 102 then n - 87
      else if 65 \<le> n \<and> n \<le> 70 then n - 55
      else 0)"

definition addressValue :: "address \<Rightarrow> nat" where
  "addressValue a = foldl (\<lambda>n c. 16 * n + hexDigit c) 0 (drop 2 a)"

type_synonym 'v object = "(address \<times> 'v) list"

type_synonym RunningBalances = "(nat \<times> int object) list"

datatype error = TypeError | Error string

record FillWithBlock =
  originChainId :: nat
  depositId :: nat
  destinationChainId :: nat
  destinationToken :: address
  amount :: int
  totalFilledAmount :: int
  fillAmount :: int
  isSlowRelay :: bool
  blockNumber :: nat

text \<open>
  The clients are collaborators whose code is outside the module; each method the module
  calls is a field of a record of functions, and so is the lookup
  \<open>getFillDataForSlowFillFromPreviousRootBundle\<close>. The functions are total: a call of a
  collaborator that throws ends the caller before the module's own code goes on.
\<close>

record HubPoolClient =
  getL1TokenCounterpartAtBlock :: "nat \<Rightarrow> address \<Rightarrow> nat \<Rightarrow> address"
  getRootBundleEvalBlockNumberContainingBlock :: "nat \<Rightarrow> nat \<Rightarrow> nat list \<Rightarrow> nat option"

text \<open>The result of \<open>getFillDataForSlowFillFromPreviousRootBundle\<close> (module FillUtils).\<close>

record FillData =
  lastFillBeforeSlowFillIncludedInRoot :: "FillWithBlock option"
  rootBundleEndBlockContainingFirstFill :: "nat option"

type_synonym FillDataLookup =
  "FillWithBlock \<Rightarrow> FillWithBlock list \<Rightarrow> HubPoolClient \<Rightarrow> nat list \<Rightarrow> FillData"

text \<open>The value of \<open>obj[chain][token]\<close>, \<open>None\<close> when either key is missing.\<close>

definition lookup2 :: "(nat \<times> 'v object) list \<Rightarrow> nat \<Rightarrow> address \<Rightarrow> 'v option" where
  "lookup2 obj chain token =
     (case map_of obj chain of None \<Rightarrow> None | Some inner \<Rightarrow> map_of inner token)"

text \<open>
  \<open>Object.keys\<close>: every key once, in the order of insertion. (JavaScript lists integer
  keys, the chain ids, in ascending order instead; the leaf builder sorts the chain ids
  anyway.)
\<close>

definition objectKeys :: "('k \<times> 'v) list \<Rightarrow> 'k list" where
  "objectKeys obj = map fst (AList.clearjunk obj)"


section \<open>Running balance accumulator\<close>

definition updateRunningBalance :: "RunningBalances \<Rightarrow> nat \<Rightarrow> address \<Rightarrow> int \<Rightarrow> RunningBalances" where
  "updateRunningBalance balances l2ChainId l1Token updateAmount =
     (let chainBalances = (case map_of balances l2ChainId of None \<Rightarrow> [] | Some b \<Rightarrow> b);
          newBalance = (case map_of chainBalances l1Token of
                          Some runningBalance \<Rightarrow> runningBalance + updateAmount
                        | None \<Rightarrow> updateAmount)
      in AList.update l2ChainId (AList.update l1Token newBalance chainBalances) balances)"

definition updateRunningBalanceForFill ::
  "RunningBalances \<Rightarrow> HubPoolClient \<Rightarrow> FillWithBlock \<Rightarrow> int \<Rightarrow> RunningBalances" where
  "updateRunningBalanceForFill balances hubPoolClient fill updateAmount =
     (let l1TokenCounterpart =
            getL1TokenCounterpartAtBlock hubPoolClient
              (destinationChainId fill) (destinationToken fill) (blockNumber fill)
      in updateRunningBalance balances (destinationChainId fill) l1TokenCounterpart updateAmount)"



text \<open>
  Modelled from the spec: \<open>assign(obj, [chain, token], value)\<close> (module utils) is not among
  the sources. The specification says that the refund amount is added to the bucket of
  the settlement token and that the fees are recorded there: the value is added to what
  the bucket at the key path holds, and a bucket that holds nothing yet is created with
  the value, together with the inner object when that is missing.
\<close>

definition assign :: "RunningBalances \<Rightarrow> nat \<Rightarrow> address \<Rightarrow> int \<Rightarrow> RunningBalances" where
  "assign obj chain token v =
     (let inner = (case map_of obj chain of None \<Rightarrow> [] | Some i \<Rightarrow> i);
          stored = (case map_of inner token of None \<Rightarrow> v | Some old \<Rightarrow> old + v)
      in AList.update chain (AList.update token stored inner) obj)"



section \<open>Threshold policy\<close>

definition getNetSendAmountForL1Token :: "int \<Rightarrow> int \<Rightarrow> int" where
  "getNetSendAmountForL1Token transferThreshold runningBalance =
     (if \<bar>runningBalance\<bar> \<ge> transferThreshold then runningBalance else 0)"

definition getRunningBalanceForL1Token :: "int \<Rightarrow> int \<Rightarrow> int" where
  "getRunningBalanceForL1Token transferThreshold runningBalance =
     (if \<bar>runningBalance\<bar> < transferThreshold then runningBalance else 0)"

section \<open>Excess correction engine\<close>

definition missingLastFillError :: error where
  "missingLastFillError =
     Error ''Can't find last fill submitted before slow fill was included in root bundle proposal''"

text \<open>
  The body of the \<open>forEach\<close> callback of
  \<open>subtractExcessFromPreviousSlowFillsFromRunningBalances\<close> for one fill: a \<open>return\<close>
  leaves the balances as they are, the \<open>throw\<close> is the result \<open>Inl\<close>.
\<close>

definition subtractExcessForFill ::
  "FillDataLookup \<Rightarrow> HubPoolClient \<Rightarrow> FillWithBlock list \<Rightarrow> nat list \<Rightarrow>
   RunningBalances \<Rightarrow> FillWithBlock \<Rightarrow> error + RunningBalances" where
  "subtractExcessForFill getFillData hubPoolClient allValidFills chainIdList balances fill =
     (let fillData = getFillData fill allValidFills hubPoolClient chainIdList in
      if totalFilledAmount fill = amount fill then
        (let rootBundleEndBlockContainingFullFill =
               getRootBundleEvalBlockNumberContainingBlock hubPoolClient
                 (blockNumber fill) (destinationChainId fill) chainIdList
         in if rootBundleEndBlockContainingFirstFill fillData = rootBundleEndBlockContainingFullFill
            then Inr balances
            else (case lastFillBeforeSlowFillIncludedInRoot fillData of
                None \<Rightarrow> Inl missingLastFillError
              | Some lastFill \<Rightarrow>
                  (let amountSentForSlowFill = amount lastFill - totalFilledAmount lastFill;
                       excess = (if isSlowRelay fill then amountSentForSlowFill - fillAmount fill
                                 else amountSentForSlowFill)
                   in if excess = 0 then Inr balances
                      else Inr (updateRunningBalanceForFill balances hubPoolClient fill
                                  (excess * (- 1))))))
      else Inr balances)"

text \<open>The \<open>forEach\<close> over the fills, in order; the first exception ends it.\<close>

fun forEachFill ::
  "(RunningBalances \<Rightarrow> FillWithBlock \<Rightarrow> error + RunningBalances) \<Rightarrow>
   FillWithBlock list \<Rightarrow> RunningBalances \<Rightarrow> error + RunningBalances" where
  "forEachFill body [] balances = Inr balances"
| "forEachFill body (fill # fills) balances =
     (case body balances fill of
        Inl e \<Rightarrow> Inl e
      | Inr balances' \<Rightarrow> forEachFill body fills balances')"

definition subtractExcessFromPreviousSlowFillsFromRunningBalances ::
  "FillDataLookup \<Rightarrow> RunningBalances \<Rightarrow> HubPoolClient \<Rightarrow> FillWithBlock list \<Rightarrow> nat list \<Rightarrow>
   error + RunningBalances" where
  "subtractExcessFromPreviousSlowFillsFromRunningBalances getFillData balances hubPoolClient
       allValidFills chainIdList =
     forEachFill (subtractExcessForFill getFillData hubPoolClient allValidFills chainIdList)
       allValidFills balances"

section \<open>Leaf builder\<close>

record AcrossConfigStoreClient =
  getMaxRefundCountForRelayerRefundLeafForBlock :: "nat \<Rightarrow> nat"
  getTokenTransferThresholdForBlock :: "address \<Rightarrow> nat \<Rightarrow> int"

record PoolRebalanceLeaf =
  chainId :: nat
  bundleLpFees :: "int option list"
  netSendAmounts :: "int list"
  runningBalances :: "int list"
  groupIndex :: nat
  leafId :: nat
  l1Tokens :: "address list"

type_synonym BigNumberForToken = "address \<Rightarrow> int option"

text \<open>\<open>Array.map\<close> with a callback that may throw: the first exception ends it.\<close>

fun mapE :: "('a \<Rightarrow> error + 'b) \<Rightarrow> 'a list \<Rightarrow> error + 'b list" where
  "mapE f [] = Inr []"
| "mapE f (x # xs) =
     (case f x of
        Inl e \<Rightarrow> Inl e
      | Inr y \<Rightarrow> (case mapE f xs of Inl e \<Rightarrow> Inl e | Inr ys \<Rightarrow> Inr (y # ys)))"

text \<open>
  \<open>tokenTransferThreshold[l1Token] || configStoreClient.getTokenTransferThresholdForBlock(...)\<close>.
  The parameter \<open>tokenTransferThreshold\<close> is optional; indexing it when it is \<open>undefined\<close>
  throws a \<open>TypeError\<close>.
\<close>

definition transferThreshold ::
  "AcrossConfigStoreClient \<Rightarrow> nat \<Rightarrow> BigNumberForToken option \<Rightarrow> address \<Rightarrow> error + int" where
  "transferThreshold configStoreClient latestMainnetBlock tokenTransferThreshold l1Token =
     (case tokenTransferThreshold of
        None \<Rightarrow> Inl TypeError
      | Some thresholds \<Rightarrow>
          (case thresholds l1Token of
             Some threshold \<Rightarrow> Inr threshold
           | None \<Rightarrow> Inr (getTokenTransferThresholdForBlock configStoreClient
                             l1Token latestMainnetBlock)))"

text \<open>
  \<open>runningBalances[chainId][l1Token]\<close> as the argument of the threshold policy, which calls
  \<open>abs\<close> on it: a \<open>TypeError\<close> if the token has no balance.
\<close>

definition balanceOf :: "int object \<Rightarrow> address \<Rightarrow> error + int" where
  "balanceOf chainBalances l1Token =
     (case map_of chainBalances l1Token of None \<Rightarrow> Inl TypeError | Some b \<Rightarrow> Inr b)"

text \<open>
  The object pushed onto \<open>leaves\<close> in one iteration of the \<open>for\<close> loop, for the tokens of
  the slice; \<open>leavesLength\<close> is \<open>leaves.length\<close> at that moment. An element of
  \<open>bundleLpFees\<close> is \<open>realizedLpFees[chainId][l1Token]\<close>, which is \<open>undefined\<close> when the
  chain has fees but none for the token.
\<close>

definition makeLeaf ::
  "nat \<Rightarrow> RunningBalances \<Rightarrow> RunningBalances \<Rightarrow> AcrossConfigStoreClient \<Rightarrow>
   BigNumberForToken option \<Rightarrow> nat \<Rightarrow> nat \<Rightarrow> nat \<Rightarrow> address list \<Rightarrow>
   error + PoolRebalanceLeaf" where
  "makeLeaf latestMainnetBlock balances realizedFees configStoreClient tokenTransferThreshold
       chain groupIndexForChainId leavesLength l1TokensToIncludeInThisLeaf =
     (case mapE (transferThreshold configStoreClient latestMainnetBlock tokenTransferThreshold)
             l1TokensToIncludeInThisLeaf of
        Inl e \<Rightarrow> Inl e
      | Inr transferThresholds \<Rightarrow>
     (case (case map_of balances chain of
              Some chainBalances \<Rightarrow>
                mapE (\<lambda>(l1Token, threshold).
                        case balanceOf chainBalances l1Token of
                          Inl e \<Rightarrow> Inl e
                        | Inr b \<Rightarrow> Inr (getNetSendAmountForL1Token threshold b))
                  (zip l1TokensToIncludeInThisLeaf transferThresholds)
            | None \<Rightarrow> Inr (replicate (length l1TokensToIncludeInThisLeaf) 0)) of
        Inl e \<Rightarrow> Inl e
      | Inr nets \<Rightarrow>
     (case (case map_of balances chain of
              Some chainBalances \<Rightarrow>
                mapE (\<lambda>(l1Token, threshold).
                        case balanceOf chainBalances l1Token of
                          Inl e \<Rightarrow> Inl e
                        | Inr b \<Rightarrow> Inr (getRunningBalanceForL1Token threshold b))
                  (zip l1TokensToIncludeInThisLeaf transferThresholds)
            | None \<Rightarrow> Inr (replicate (length l1TokensToIncludeInThisLeaf) 0)) of
        Inl e \<Rightarrow> Inl e
      | Inr carried \<Rightarrow>
          Inr \<lparr>chainId = chain,
               bundleLpFees =
                 (case map_of realizedFees chain of
                    Some chainFees \<Rightarrow> map (map_of chainFees) l1TokensToIncludeInThisLeaf
                  | None \<Rightarrow> replicate (length l1TokensToIncludeInThisLeaf) (Some 0)),
               netSendAmounts = nets,
               runningBalances = carried,
               groupIndex = groupIndexForChainId,
               leafId = leavesLength,
               l1Tokens = l1TokensToIncludeInThisLeaf\<rparr>)))"

text \<open>
  The loop \<open>for (let i = 0; i < sortedL1Tokens.length; i += maxL1TokensPerLeaf)\<close>. It does not
  end when \<open>maxL1TokensPerLeaf\<close> is 0 and there is a token, so it is a partial function:
  \<open>None\<close> is "does not return".
\<close>

partial_function (option) leavesLoop ::
  "(nat \<Rightarrow> nat \<Rightarrow> address list \<Rightarrow> error + PoolRebalanceLeaf) \<Rightarrow> address list \<Rightarrow> nat \<Rightarrow>
   nat \<Rightarrow> nat \<Rightarrow> PoolRebalanceLeaf list \<Rightarrow> (error + PoolRebalanceLeaf list) option" where
  "leavesLoop leafFor sortedL1Tokens maxL1TokensPerLeaf i groupIndexForChainId leaves =
     (if i < length sortedL1Tokens then
        (case leafFor groupIndexForChainId (length leaves)
                (take maxL1TokensPerLeaf (drop i sortedL1Tokens)) of
           Inl e \<Rightarrow> Some (Inl e)
         | Inr leaf \<Rightarrow>
             leavesLoop leafFor sortedL1Tokens maxL1TokensPerLeaf (i + maxL1TokensPerLeaf)
               (groupIndexForChainId + 1) (leaves @ [leaf]))
      else Some (Inr leaves))"

declare leavesLoop.simps [code]

text \<open>
  \<open>maxL1TokenCount || configStoreClient.getMaxRefundCountForRelayerRefundLeafForBlock(...)\<close>:
  a count that is \<open>undefined\<close> or 0 is falsy, and then the configured count is taken.
\<close>

definition maxL1TokensPerLeaf :: "nat option \<Rightarrow> AcrossConfigStoreClient \<Rightarrow> nat \<Rightarrow> nat" where
  "maxL1TokensPerLeaf maxL1TokenCount configStoreClient latestMainnetBlock =
     (case maxL1TokenCount of
        Some n \<Rightarrow> if n \<noteq> 0 then n
                  else getMaxRefundCountForRelayerRefundLeafForBlock configStoreClient latestMainnetBlock
      | None \<Rightarrow> getMaxRefundCountForRelayerRefundLeafForBlock configStoreClient latestMainnetBlock)"

text \<open>
  The callback of the \<open>map\<close> over the sorted chain ids, for one chain. The sort of the
  token keys with \<open>compareAddresses\<close> is stable: keys that compare equal keep the order
  of \<open>Object.keys\<close>.
\<close>

definition leavesForChain ::
  "nat \<Rightarrow> RunningBalances \<Rightarrow> RunningBalances \<Rightarrow> AcrossConfigStoreClient \<Rightarrow> nat option \<Rightarrow>
   BigNumberForToken option \<Rightarrow> nat \<Rightarrow> PoolRebalanceLeaf list \<Rightarrow>
   (error + PoolRebalanceLeaf list) option" where
  "leavesForChain latestMainnetBlock balances realizedFees configStoreClient maxL1TokenCount
       tokenTransferThreshold chain leaves =
     (case map_of balances chain of
        None \<Rightarrow> Some (Inl TypeError)
      | Some chainBalances \<Rightarrow>
          leavesLoop
            (makeLeaf latestMainnetBlock balances realizedFees configStoreClient
               tokenTransferThreshold chain)
            (sort_key addressValue (objectKeys chainBalances))
            (maxL1TokensPerLeaf maxL1TokenCount configStoreClient latestMainnetBlock)
            0 0 leaves)"

text \<open>The chains in order, threading \<open>leaves\<close>; an exception or a loop that never ends stops it.\<close>

fun forEachChain ::
  "(nat \<Rightarrow> PoolRebalanceLeaf list \<Rightarrow> (error + PoolRebalanceLeaf list) option) \<Rightarrow>
   nat list \<Rightarrow> PoolRebalanceLeaf list \<Rightarrow> (error + PoolRebalanceLeaf list) option" where
  "forEachChain body [] leaves = Some (Inr leaves)"
| "forEachChain body (chain # rest) leaves =
     (case body chain leaves of
        None \<Rightarrow> None
      | Some (Inl e) \<Rightarrow> Some (Inl e)
      | Some (Inr leaves') \<Rightarrow> forEachChain body rest leaves')"

definition constructPoolRebalanceLeaves ::
  "nat \<Rightarrow> RunningBalances \<Rightarrow> RunningBalances \<Rightarrow> AcrossConfigStoreClient \<Rightarrow> nat option \<Rightarrow>
   BigNumberForToken option \<Rightarrow> (error + PoolRebalanceLeaf list) option" where
  "constructPoolRebalanceLeaves latestMainnetBlock balances realizedFees configStoreClient
       maxL1TokenCount tokenTransferThreshold =
     forEachChain
       (leavesForChain latestMainnetBlock balances realizedFees configStoreClient
          maxL1TokenCount tokenTransferThreshold)
       (sort (objectKeys balances)) []"

text \<open>
  The running balance of a bucket, a missing bucket counting as 0, as
  \<open>updateRunningBalance\<close> reads it.
\<close>

definition balanceAt :: "RunningBalances \<Rightarrow> nat \<Rightarrow> address \<Rightarrow> int" where
  "balanceAt balances chain token =
     (case lookup2 balances chain token of None \<Rightarrow> 0 | Some b \<Rightarrow> b)"

text \<open>
  The excess of a fill in the words of the specification (Excess Correction Engine, steps
  1 to 4): for a fill that completes its deposit and whose first fill lies in another
  settlement window, \<open>amountReserved = thatFill.amount - thatFill.totalFilledAmount\<close> for
  the prior reservation fill, and the excess is \<open>amountReserved - fill.fillAmount\<close> if the
  fill is the slow relay and \<open>amountReserved\<close> otherwise. Every other fill has no excess.
  (Without a prior reservation fill the reconciliation fails; the value 0 is never used.)
\<close>

definition reservedExcess ::
  "FillDataLookup \<Rightarrow> HubPoolClient \<Rightarrow> FillWithBlock list \<Rightarrow> nat list \<Rightarrow> FillWithBlock \<Rightarrow> int" where
  "reservedExcess getFillData hub allValidFills chainIdList fill =
     (if totalFilledAmount fill = amount fill \<and>
         rootBundleEndBlockContainingFirstFill (getFillData fill allValidFills hub chainIdList)
           \<noteq> getRootBundleEvalBlockNumberContainingBlock hub
                (blockNumber fill) (destinationChainId fill) chainIdList
      then (case lastFillBeforeSlowFillIncludedInRoot
                   (getFillData fill allValidFills hub chainIdList) of
              None \<Rightarrow> 0
            | Some thatFill \<Rightarrow>
                (let amountReserved = amount thatFill - totalFilledAmount thatFill
                 in if isSlowRelay fill then amountReserved - fillAmount fill
                    else amountReserved))
      else 0)"

text \<open>
  Helper predicate for the proofs: \<open>ls\<close> are the leaves one chain contributes when the
  sorted tokens \<open>tokens\<close> are cut every \<open>m\<close> tokens and \<open>base\<close> leaves exist already.
\<close>

definition chainLeaves :: "nat \<Rightarrow> address list \<Rightarrow> nat \<Rightarrow> nat \<Rightarrow> PoolRebalanceLeaf list \<Rightarrow> bool" where
  "chainLeaves m tokens chain base ls \<longleftrightarrow>
     length tokens \<le> length ls * m \<and>
     (\<forall>k < length ls.
        k * m < length tokens \<and>
        chainId (ls ! k) = chain \<and> groupIndex (ls ! k) = k \<and> leafId (ls ! k) = base + k \<and>
        l1Tokens (ls ! k) = take m (drop (k * m) tokens) \<and>
        length (bundleLpFees (ls ! k)) = length (l1Tokens (ls ! k)) \<and>
        length (netSendAmounts (ls ! k)) = length (l1Tokens (ls ! k)) \<and>
        length (runningBalances (ls ! k)) = length (l1Tokens (ls ! k)))"




definition writeAll ::
  "((nat \<times> address) \<times> int) list \<Rightarrow> RunningBalances \<Rightarrow> RunningBalances" where
  "writeAll ws obj = fold (\<lambda>((chain, token), v) acc. assign acc chain token v) ws obj"


section \<open>Example inputs\<close>

text \<open>
  The scenario of the specification: a deposit of 100 is filled to 60 in a first window
  (end block 150), which reserves 40 for a slow fill; a later fill completes the deposit
  in the next window (end block 250).
\<close>

definition partialFill :: FillWithBlock where
  "partialFill = \<lparr>originChainId = 1, depositId = 5, destinationChainId = 10,
     destinationToken = ''0x07'', amount = 100, totalFilledAmount = 60, fillAmount = 60,
     isSlowRelay = False, blockNumber = 120\<rparr>"

definition completingFill :: FillWithBlock where
  "completingFill = \<lparr>originChainId = 1, depositId = 5, destinationChainId = 10,
     destinationToken = ''0x07'', amount = 100, totalFilledAmount = 100, fillAmount = 40,
     isSlowRelay = False, blockNumber = 220\<rparr>"

definition exampleHub :: HubPoolClient where
  "exampleHub = \<lparr>getL1TokenCounterpartAtBlock = (\<lambda>chain token block. ''0xa'' @ drop 3 token),
     getRootBundleEvalBlockNumberContainingBlock =
       (\<lambda>block chain chainIds. if block \<le> 150 then Some 150
                              else if block \<le> 250 then Some 250 else None)\<rparr>"

definition fillDataFound :: FillDataLookup where
  "fillDataFound fill fills hub chainIds =
     \<lparr>lastFillBeforeSlowFillIncludedInRoot = Some partialFill,
      rootBundleEndBlockContainingFirstFill = Some 150\<rparr>"

definition fillDataMissing :: FillDataLookup where
  "fillDataMissing fill fills hub chainIds =
     \<lparr>lastFillBeforeSlowFillIncludedInRoot = None,
      rootBundleEndBlockContainingFirstFill = Some 150\<rparr>"

definition fillDataCurrent :: FillDataLookup where
  "fillDataCurrent fill fills hub chainIds =
     \<lparr>lastFillBeforeSlowFillIncludedInRoot = None,
      rootBundleEndBlockContainingFirstFill = None\<rparr>"

definition currentFill :: FillWithBlock where
  "currentFill = \<lparr>originChainId = 1, depositId = 6, destinationChainId = 10,
     destinationToken = ''0x07'', amount = 30, totalFilledAmount = 30, fillAmount = 30,
     isSlowRelay = False, blockNumber = 300\<rparr>"

definition exampleBalances :: RunningBalances where
  "exampleBalances = [(10, [(''0xa7'', 500)])]"

text \<open>
  A run of the leaf builder: chain 10 has five tokens, chain 1 has one, at most two tokens
  go into a leaf; chain 42 has realized fees but no running balance.
\<close>

definition exampleConfig :: AcrossConfigStoreClient where
  "exampleConfig = \<lparr>getMaxRefundCountForRelayerRefundLeafForBlock = (\<lambda>block. 2),
     getTokenTransferThresholdForBlock = (\<lambda>token block. 100)\<rparr>"

definition fiveTokenBalances :: RunningBalances where
  "fiveTokenBalances =
     [(10, [(''0x05'', 500), (''0x03'', - 300), (''0x01'', 10), (''0x04'', 0), (''0x02'', 100)]),
      (1, [(''0x03'', 7)])]"

definition exampleFees :: RunningBalances where
  "exampleFees = [(10, [(''0x03'', 9)]), (42, [(''0x03'', 11)])]"

definition exampleThresholds :: BigNumberForToken where
  "exampleThresholds = (\<lambda>token. if token = ''0x05'' then Some 1000 else None)"


definition exampleLeaves :: "PoolRebalanceLeaf list" where
  "exampleLeaves =
     [\<lparr>chainId = 1, bundleLpFees = [Some 0], netSendAmounts = [0],
           runningBalances = [7], groupIndex = 0, leafId = 0,
           l1Tokens = [''0x03'']\<rparr>,
        \<lparr>chainId = 10, bundleLpFees = [None, None],
           netSendAmounts = [0, 100], runningBalances = [10, 0],
           groupIndex = 0, leafId = 1, l1Tokens = [''0x01'', ''0x02'']\<rparr>,
        \<lparr>chainId = 10, bundleLpFees = [Some 9, None],
           netSendAmounts = [- 300, 0], runningBalances = [0, 0],
           groupIndex = 1, leafId = 2, l1Tokens = [''0x03'', ''0x04'']\<rparr>,
        \<lparr>chainId = 10, bundleLpFees = [None], netSendAmounts = [0],
           runningBalances = [500], groupIndex = 2, leafId = 3,
           l1Tokens = [''0x05'']\<rparr>]"



text \<open>
  A chain whose running balances have two keys that spell one address.
\<close>

definition twoSpellings :: RunningBalances where
  "twoSpellings = [(10, [(''0xab'', 5), (''0xAB'', 7)])]"

definition twoSpellingsLeaf :: PoolRebalanceLeaf where
  "twoSpellingsLeaf =
     \<lparr>chainId = 10, bundleLpFees = [Some 0, Some 0], netSendAmounts = [0, 0],
      runningBalances = [5, 7], groupIndex = 0, leafId = 0,
      l1Tokens = [''0xab'', ''0xAB'']\<rparr>"


section \<open>Properties\<close>

lemma lookup2_updateRunningBalance:
  "lookup2 (updateRunningBalance balances c t d) c' t' =
     (if c' = c \<and> t' = t
      then Some ((case lookup2 balances c t of None \<Rightarrow> 0 | Some b \<Rightarrow> b) + d)
      else lookup2 balances c' t')"
  by (auto simp: lookup2_def updateRunningBalance_def Let_def update_conv'
      split: option.splits)

text \<open>
  C2. For a threshold \<open>T \<ge> 0\<close> and a balance \<open>B\<close>, the threshold policy gives
  net send amount \<open>B\<close> and carried balance \<open>0\<close> when \<open>|B| \<ge> T\<close>, and net send amount \<open>0\<close>
  and carried balance \<open>B\<close> when \<open>|B| < T\<close>; the two results are never both nonzero.
\<close>

theorem threshold_policy_exclusive:
  assumes "0 \<le> T"
  shows "(\<bar>B\<bar> \<ge> T \<longrightarrow>
            getNetSendAmountForL1Token T B = B \<and> getRunningBalanceForL1Token T B = 0)
       \<and> (\<bar>B\<bar> < T \<longrightarrow>
            getNetSendAmountForL1Token T B = 0 \<and> getRunningBalanceForL1Token T B = B)
       \<and> \<not> (getNetSendAmountForL1Token T B \<noteq> 0 \<and> getRunningBalanceForL1Token T B \<noteq> 0)"
  by (simp add: getNetSendAmountForL1Token_def getRunningBalanceForL1Token_def)

theorem threshold_policy_exclusive_witness:
  "(0::int) \<le> 50
   \<and> getNetSendAmountForL1Token 50 (- 70) = - 70 \<and> getRunningBalanceForL1Token 50 (- 70) = 0
   \<and> getNetSendAmountForL1Token 50 49 = 0 \<and> getRunningBalanceForL1Token 50 49 = 49"
  using threshold_policy_exclusive [of 50 "- 70"] threshold_policy_exclusive [of 50 49]
  by simp

lemma forEachFill_error:
  assumes "fill \<in> set fills"
    and "\<And>b. body b fill = Inl e"
    and "\<And>b f e'. body b f = Inl e' \<Longrightarrow> e' = e"
  shows "forEachFill body fills balances = Inl e"
  using assms(1)
proof (induction fills arbitrary: balances)
  case Nil
  then show ?case by simp
next
  case (Cons f fs)
  show ?case
  proof (cases "body balances f")
    case (Inl e')
    with assms(3) show ?thesis by simp
  next
    case (Inr b')
    with assms(2) have "f \<noteq> fill" by auto
    with Cons.prems have "fill \<in> set fs" by simp
    with Cons.IH Inr show ?thesis by simp
  qed
qed

lemma subtractExcessForFill_error:
  "subtractExcessForFill getFillData hub fills chainIds b f = Inl e \<Longrightarrow>
   e = missingLastFillError"
  by (auto simp: subtractExcessForFill_def Let_def split: if_splits option.splits)

lemma subtractExcessForFill_balanceAt:
  assumes "subtractExcessForFill getFillData hub allValidFills chainIdList b fill = Inr b'"
  shows "balanceAt b' c t = balanceAt b c t +
           (if destinationChainId fill = c \<and>
               getL1TokenCounterpartAtBlock hub
                 (destinationChainId fill) (destinationToken fill) (blockNumber fill) = t
            then - reservedExcess getFillData hub allValidFills chainIdList fill else 0)"
  using assms
  by (auto simp: subtractExcessForFill_def reservedExcess_def balanceAt_def Let_def
      updateRunningBalanceForFill_def lookup2_updateRunningBalance
      split: if_splits option.splits)

lemma subtractExcessForFill_bucket:
  assumes "subtractExcessForFill getFillData hub allValidFills chainIdList b fill = Inr b'"
  shows "lookup2 b' c t = None \<longleftrightarrow>
           lookup2 b c t = None \<and>
           \<not> (destinationChainId fill = c \<and>
               getL1TokenCounterpartAtBlock hub
                 (destinationChainId fill) (destinationToken fill) (blockNumber fill) = t \<and>
               reservedExcess getFillData hub allValidFills chainIdList fill \<noteq> 0)"
  using assms
  by (auto simp: subtractExcessForFill_def reservedExcess_def Let_def
      updateRunningBalanceForFill_def lookup2_updateRunningBalance
      split: if_splits option.splits)

lemma forEachFill_balanceAt:
  assumes "forEachFill (subtractExcessForFill getFillData hub allValidFills chainIdList)
             fills b = Inr result"
  shows "balanceAt result c t = balanceAt b c t +
           (\<Sum>fill \<leftarrow> fills.
              if destinationChainId fill = c \<and>
                 getL1TokenCounterpartAtBlock hub
                   (destinationChainId fill) (destinationToken fill) (blockNumber fill) = t
              then - reservedExcess getFillData hub allValidFills chainIdList fill else 0)"
  using assms
proof (induction fills arbitrary: b)
  case Nil
  then show ?case by simp
next
  case (Cons f fs)
  from Cons.prems obtain b' where
    step: "subtractExcessForFill getFillData hub allValidFills chainIdList b f = Inr b'"
    and rest: "forEachFill (subtractExcessForFill getFillData hub allValidFills chainIdList)
                 fs b' = Inr result"
    by (auto split: sum.splits)
  show ?case
    unfolding Cons.IH [OF rest] subtractExcessForFill_balanceAt [OF step] by simp
qed

lemma forEachFill_bucket:
  assumes "forEachFill (subtractExcessForFill getFillData hub allValidFills chainIdList)
             fills b = Inr result"
  shows "lookup2 result c t = None \<longleftrightarrow>
           lookup2 b c t = None \<and>
           \<not> (\<exists>fill \<in> set fills.
                 destinationChainId fill = c \<and>
                 getL1TokenCounterpartAtBlock hub
                   (destinationChainId fill) (destinationToken fill) (blockNumber fill) = t \<and>
                 reservedExcess getFillData hub allValidFills chainIdList fill \<noteq> 0)"
  using assms
proof (induction fills arbitrary: b)
  case Nil
  then show ?case by simp
next
  case (Cons f fs)
  from Cons.prems obtain b' where
    step: "subtractExcessForFill getFillData hub allValidFills chainIdList b f = Inr b'"
    and rest: "forEachFill (subtractExcessForFill getFillData hub allValidFills chainIdList)
                 fs b' = Inr result"
    by (auto split: sum.splits)
  show ?case
    unfolding Cons.IH [OF rest] subtractExcessForFill_bucket [OF step] by auto
qed

text \<open>
  C1. When the Excess Correction Engine returns, it has added \<open>- excess\<close> to the running
  balance of the destination chain and settlement token of every fill of the list: the
  balance of every bucket is its balance before (0 for a missing bucket) minus the
  excesses of the fills whose destination chain and settlement token it is, and a bucket
  exists afterwards exactly if it existed before or such a fill has a nonzero excess. The
  excess of a fill that completes its deposit (\<open>totalFilledAmount = amount\<close>), whose first
  fill lies in another settlement window and whose prior reservation fill is \<open>lastFill\<close>,
  is \<open>amountReserved - fillAmount\<close> for a slow relay and \<open>amountReserved\<close> otherwise, with
  \<open>amountReserved = lastFill.amount - lastFill.totalFilledAmount\<close>; every such fill of the
  list has a prior reservation fill when the engine returns.
\<close>

theorem excess_subtracted_from_destination_bucket:
  assumes "subtractExcessFromPreviousSlowFillsFromRunningBalances getFillData balances hub
             allValidFills chainIdList = Inr result"
  shows "balanceAt result c t = balanceAt balances c t +
           (\<Sum>fill \<leftarrow> allValidFills.
              if destinationChainId fill = c \<and>
                 getL1TokenCounterpartAtBlock hub
                   (destinationChainId fill) (destinationToken fill) (blockNumber fill) = t
              then - reservedExcess getFillData hub allValidFills chainIdList fill else 0)
       \<and> (lookup2 result c t \<noteq> None \<longleftrightarrow>
            lookup2 balances c t \<noteq> None \<or>
            (\<exists>fill \<in> set allValidFills.
               destinationChainId fill = c \<and>
               getL1TokenCounterpartAtBlock hub
                 (destinationChainId fill) (destinationToken fill) (blockNumber fill) = t \<and>
               reservedExcess getFillData hub allValidFills chainIdList fill \<noteq> 0))
       \<and> (\<forall>fill \<in> set allValidFills.
            totalFilledAmount fill = amount fill \<and>
            rootBundleEndBlockContainingFirstFill
              (getFillData fill allValidFills hub chainIdList)
              \<noteq> getRootBundleEvalBlockNumberContainingBlock hub
                   (blockNumber fill) (destinationChainId fill) chainIdList
            \<longrightarrow> lastFillBeforeSlowFillIncludedInRoot
                  (getFillData fill allValidFills hub chainIdList) \<noteq> None)
       \<and> (\<forall>fill lastFill.
            totalFilledAmount fill = amount fill \<and>
            rootBundleEndBlockContainingFirstFill
              (getFillData fill allValidFills hub chainIdList)
              \<noteq> getRootBundleEvalBlockNumberContainingBlock hub
                   (blockNumber fill) (destinationChainId fill) chainIdList \<and>
            lastFillBeforeSlowFillIncludedInRoot
              (getFillData fill allValidFills hub chainIdList) = Some lastFill
            \<longrightarrow> reservedExcess getFillData hub allValidFills chainIdList fill
                = (if isSlowRelay fill
                   then amount lastFill - totalFilledAmount lastFill - fillAmount fill
                   else amount lastFill - totalFilledAmount lastFill))"
proof (intro conjI)
  note run = assms [unfolded subtractExcessFromPreviousSlowFillsFromRunningBalances_def]
  show "balanceAt result c t = balanceAt balances c t +
           (\<Sum>fill \<leftarrow> allValidFills.
              if destinationChainId fill = c \<and>
                 getL1TokenCounterpartAtBlock hub
                   (destinationChainId fill) (destinationToken fill) (blockNumber fill) = t
              then - reservedExcess getFillData hub allValidFills chainIdList fill else 0)"
    by (rule forEachFill_balanceAt [OF run])
  show "lookup2 result c t \<noteq> None \<longleftrightarrow>
            lookup2 balances c t \<noteq> None \<or>
            (\<exists>fill \<in> set allValidFills.
               destinationChainId fill = c \<and>
               getL1TokenCounterpartAtBlock hub
                 (destinationChainId fill) (destinationToken fill) (blockNumber fill) = t \<and>
               reservedExcess getFillData hub allValidFills chainIdList fill \<noteq> 0)"
    using forEachFill_bucket [OF run, of c t] by auto
  show "\<forall>fill \<in> set allValidFills.
            totalFilledAmount fill = amount fill \<and>
            rootBundleEndBlockContainingFirstFill
              (getFillData fill allValidFills hub chainIdList)
              \<noteq> getRootBundleEvalBlockNumberContainingBlock hub
                   (blockNumber fill) (destinationChainId fill) chainIdList
            \<longrightarrow> lastFillBeforeSlowFillIncludedInRoot
                  (getFillData fill allValidFills hub chainIdList) \<noteq> None"
  proof (intro ballI impI notI)
    fix fill
    assume m: "fill \<in> set allValidFills"
      and h: "totalFilledAmount fill = amount fill \<and>
            rootBundleEndBlockContainingFirstFill
              (getFillData fill allValidFills hub chainIdList)
              \<noteq> getRootBundleEvalBlockNumberContainingBlock hub
                   (blockNumber fill) (destinationChainId fill) chainIdList"
      and n: "lastFillBeforeSlowFillIncludedInRoot
                (getFillData fill allValidFills hub chainIdList) = None"
    have "forEachFill (subtractExcessForFill getFillData hub allValidFills chainIdList)
            allValidFills balances = Inl missingLastFillError"
    proof (rule forEachFill_error [OF m])
      fix b
      show "subtractExcessForFill getFillData hub allValidFills chainIdList b fill
            = Inl missingLastFillError"
        using h n by (simp add: subtractExcessForFill_def Let_def)
    next
      fix b f e'
      assume "subtractExcessForFill getFillData hub allValidFills chainIdList b f = Inl e'"
      then show "e' = missingLastFillError" by (rule subtractExcessForFill_error)
    qed
    with run show False by simp
  qed
  show "\<forall>fill lastFill.
            totalFilledAmount fill = amount fill \<and>
            rootBundleEndBlockContainingFirstFill
              (getFillData fill allValidFills hub chainIdList)
              \<noteq> getRootBundleEvalBlockNumberContainingBlock hub
                   (blockNumber fill) (destinationChainId fill) chainIdList \<and>
            lastFillBeforeSlowFillIncludedInRoot
              (getFillData fill allValidFills hub chainIdList) = Some lastFill
            \<longrightarrow> reservedExcess getFillData hub allValidFills chainIdList fill
                = (if isSlowRelay fill
                   then amount lastFill - totalFilledAmount lastFill - fillAmount fill
                   else amount lastFill - totalFilledAmount lastFill)"
    by (simp add: reservedExcess_def Let_def)
qed

theorem excess_subtracted_from_destination_bucket_witness:
  "subtractExcessFromPreviousSlowFillsFromRunningBalances fillDataFound exampleBalances
     exampleHub [partialFill, completingFill] [1, 10] = Inr [(10, [(''0xa7'', 460)])]
   \<and> reservedExcess fillDataFound exampleHub [partialFill, completingFill] [1, 10]
       completingFill = 40
   \<and> balanceAt exampleBalances 10 ''0xa7'' = 500
   \<and> balanceAt [(10, [(''0xa7'', 460)])] 10 ''0xa7'' = 500 + (0 + (- 40 + 0))"
proof -
  have run: "subtractExcessFromPreviousSlowFillsFromRunningBalances fillDataFound
      exampleBalances exampleHub [partialFill, completingFill] [1, 10]
      = Inr [(10, [(''0xa7'', 460)])]"
    by (simp add: subtractExcessFromPreviousSlowFillsFromRunningBalances_def
        subtractExcessForFill_def fillDataFound_def exampleHub_def partialFill_def
        completingFill_def exampleBalances_def updateRunningBalanceForFill_def
        updateRunningBalance_def)
  have e1: "reservedExcess fillDataFound exampleHub [partialFill, completingFill] [1, 10]
      partialFill = 0"
    by (simp add: reservedExcess_def partialFill_def)
  have h: "totalFilledAmount completingFill = amount completingFill \<and>
      rootBundleEndBlockContainingFirstFill
        (fillDataFound completingFill [partialFill, completingFill] exampleHub [1, 10])
        \<noteq> getRootBundleEvalBlockNumberContainingBlock exampleHub
             (blockNumber completingFill) (destinationChainId completingFill) [1, 10] \<and>
      lastFillBeforeSlowFillIncludedInRoot
        (fillDataFound completingFill [partialFill, completingFill] exampleHub [1, 10])
        = Some partialFill"
    by (simp add: completingFill_def fillDataFound_def exampleHub_def)
  note inst = excess_subtracted_from_destination_bucket [OF run, of 10 "''0xa7''"]
  from inst h have "reservedExcess fillDataFound exampleHub [partialFill, completingFill]
      [1, 10] completingFill
      = (if isSlowRelay completingFill
         then amount partialFill - totalFilledAmount partialFill - fillAmount completingFill
         else amount partialFill - totalFilledAmount partialFill)"
    by blast
  then have e2: "reservedExcess fillDataFound exampleHub [partialFill, completingFill]
      [1, 10] completingFill = 40"
    by (simp add: completingFill_def partialFill_def)
  have t1: "destinationChainId partialFill = 10"
    "getL1TokenCounterpartAtBlock exampleHub 10
       (destinationToken partialFill) (blockNumber partialFill) = ''0xa7''"
    by (simp_all add: partialFill_def exampleHub_def)
  have t2: "destinationChainId completingFill = 10"
    "getL1TokenCounterpartAtBlock exampleHub 10
       (destinationToken completingFill) (blockNumber completingFill) = ''0xa7''"
    by (simp_all add: completingFill_def exampleHub_def)
  have b0: "balanceAt exampleBalances 10 ''0xa7'' = 500"
    by (simp add: balanceAt_def lookup2_def exampleBalances_def)
  from inst have "balanceAt [(10, [(''0xa7'', 460)])] 10 ''0xa7''
      = balanceAt exampleBalances 10 ''0xa7'' +
          (\<Sum>fill \<leftarrow> [partialFill, completingFill].
             if destinationChainId fill = 10 \<and>
                getL1TokenCounterpartAtBlock exampleHub
                  (destinationChainId fill) (destinationToken fill) (blockNumber fill)
                  = ''0xa7''
             then - reservedExcess fillDataFound exampleHub [partialFill, completingFill]
                      [1, 10] fill
             else 0)"
    by (rule conjunct1)
  then have "balanceAt [(10, [(''0xa7'', 460)])] 10 ''0xa7''
      = 500 + (0 + (- 40 + 0))"
    using e1 e2 t1 t2 b0 by simp
  with run e2 b0 show ?thesis by blast
qed

text \<open>
  C3. If some fill of the list completes its deposit, its first fill lies in another
  settlement window than the completing fill, and no prior reservation fill is found for
  it, the whole reconciliation ends with the error; no running balances are returned.
\<close>

theorem missing_reservation_fill_is_fatal:
  assumes "fill \<in> set allValidFills"
    and "totalFilledAmount fill = amount fill"
    and "rootBundleEndBlockContainingFirstFill (getFillData fill allValidFills hub chainIdList)
          \<noteq> getRootBundleEvalBlockNumberContainingBlock hub
               (blockNumber fill) (destinationChainId fill) chainIdList"
    and "lastFillBeforeSlowFillIncludedInRoot (getFillData fill allValidFills hub chainIdList)
          = None"
  shows "subtractExcessFromPreviousSlowFillsFromRunningBalances getFillData balances hub
           allValidFills chainIdList
         = Inl missingLastFillError"
  unfolding subtractExcessFromPreviousSlowFillsFromRunningBalances_def
proof (rule forEachFill_error [OF assms(1)])
  fix b
  show "subtractExcessForFill getFillData hub allValidFills chainIdList b fill
        = Inl missingLastFillError"
    using assms(2-4) by (simp add: subtractExcessForFill_def Let_def)
next
  fix b f e'
  assume "subtractExcessForFill getFillData hub allValidFills chainIdList b f = Inl e'"
  then show "e' = missingLastFillError"
    by (rule subtractExcessForFill_error)
qed

theorem missing_reservation_fill_is_fatal_witness:
  "subtractExcessFromPreviousSlowFillsFromRunningBalances fillDataMissing exampleBalances
     exampleHub [partialFill, completingFill] [1, 10]
   = Inl missingLastFillError"
  using missing_reservation_fill_is_fatal
    [of completingFill "[partialFill, completingFill]" fillDataMissing exampleHub "[1, 10]"
        exampleBalances]
  by (simp add: completingFill_def fillDataMissing_def exampleHub_def)

text \<open>
  C4. For a fill that completes its deposit, if the end block of the settlement window of
  the deposit's first fill equals the end block of the window of the completing fill (both
  may be undefined), the engine returns the running balances unchanged for that fill.
\<close>

theorem same_window_no_correction:
  assumes "totalFilledAmount fill = amount fill"
    and "rootBundleEndBlockContainingFirstFill (getFillData fill allValidFills hub chainIdList)
          = getRootBundleEvalBlockNumberContainingBlock hub
              (blockNumber fill) (destinationChainId fill) chainIdList"
  shows "subtractExcessForFill getFillData hub allValidFills chainIdList balances fill
         = Inr balances"
  using assms by (simp add: subtractExcessForFill_def Let_def)

theorem same_window_no_correction_witness:
  "rootBundleEndBlockContainingFirstFill (fillDataCurrent currentFill [currentFill] exampleHub [1, 10])
     = None
   \<and> getRootBundleEvalBlockNumberContainingBlock exampleHub 300 10 [1, 10] = None
   \<and> subtractExcessForFill fillDataCurrent exampleHub [currentFill] [1, 10]
       exampleBalances currentFill = Inr exampleBalances"
  using same_window_no_correction
    [of currentFill fillDataCurrent "[currentFill]" exampleHub "[1, 10]" exampleBalances]
  by (simp add: currentFill_def fillDataCurrent_def exampleHub_def)

subsection \<open>Leaf builder\<close>

lemma mapE_length: "mapE f xs = Inr ys \<Longrightarrow> length ys = length xs"
  by (induction xs arbitrary: ys) (auto split: sum.splits)

lemma makeLeaf_Inr:
  assumes "makeLeaf blk balances fees cfg tt c g n toks = Inr leaf"
  shows "chainId leaf = c \<and> groupIndex leaf = g \<and> leafId leaf = n \<and> l1Tokens leaf = toks
       \<and> length (bundleLpFees leaf) = length toks
       \<and> length (netSendAmounts leaf) = length toks
       \<and> length (runningBalances leaf) = length toks"
proof -
  from assms obtain ths nets carried where
    t: "mapE (transferThreshold cfg blk tt) toks = Inr ths"
    and n: "(case map_of balances c of
              Some chainBalances \<Rightarrow>
                mapE (\<lambda>(l1Token, threshold).
                        case balanceOf chainBalances l1Token of
                          Inl e \<Rightarrow> Inl e
                        | Inr b \<Rightarrow> Inr (getNetSendAmountForL1Token threshold b))
                  (zip toks ths)
            | None \<Rightarrow> Inr (replicate (length toks) 0)) = Inr nets"
    and r: "(case map_of balances c of
              Some chainBalances \<Rightarrow>
                mapE (\<lambda>(l1Token, threshold).
                        case balanceOf chainBalances l1Token of
                          Inl e \<Rightarrow> Inl e
                        | Inr b \<Rightarrow> Inr (getRunningBalanceForL1Token threshold b))
                  (zip toks ths)
            | None \<Rightarrow> Inr (replicate (length toks) 0)) = Inr carried"
    and l: "leaf = \<lparr>chainId = c,
               bundleLpFees =
                 (case map_of fees c of
                    Some chainFees \<Rightarrow> map (map_of chainFees) toks
                  | None \<Rightarrow> replicate (length toks) (Some 0)),
               netSendAmounts = nets,
               runningBalances = carried,
               groupIndex = g,
               leafId = n,
               l1Tokens = toks\<rparr>"
    unfolding makeLeaf_def by (auto split: sum.splits)
  from t have lt: "length ths = length toks" by (rule mapE_length)
  from n lt have ln: "length nets = length toks"
    by (auto split: option.splits dest: mapE_length)
  from r lt have lr: "length carried = length toks"
    by (auto split: option.splits dest: mapE_length)
  from l ln lr show ?thesis by (auto split: option.splits)
qed

lemma leavesLoop_result:
  assumes "leavesLoop leafFor toks m i g leaves = Some y"
  shows "\<forall>out. y = Inr out \<longrightarrow>
           (\<exists>ls. out = leaves @ ls \<and> length toks \<le> i + length ls * m \<and>
                 (\<forall>k < length ls. i + k * m < length toks \<and>
                    leafFor (g + k) (length leaves + k) (take m (drop (i + k * m) toks))
                      = Inr (ls ! k)))"
  using assms
proof (induction leafFor toks m i g leaves y
    rule: leavesLoop.raw_induct [rotated, consumes 1, case_names step])
  case (step loop leafFor toks m i g leaves y)
  note IH = step(1) and eq = step(2)
  show ?case
  proof (intro allI impI)
    fix out
    assume y: "y = Inr out"
    show "\<exists>ls. out = leaves @ ls \<and> length toks \<le> i + length ls * m \<and>
               (\<forall>k < length ls. i + k * m < length toks \<and>
                  leafFor (g + k) (length leaves + k) (take m (drop (i + k * m) toks))
                    = Inr (ls ! k))"
    proof (cases "i < length toks")
      case False
      with eq y have "out = leaves" by simp
      with False show ?thesis by (intro exI [of _ "[]"]) simp
    next
      case True
      show ?thesis
      proof (cases "leafFor g (length leaves) (take m (drop i toks))")
        case (Inl e)
        with eq True y show ?thesis by simp
      next
        case (Inr leaf)
        with eq True have
          rec: "loop leafFor toks m (i + m) (g + 1) (leaves @ [leaf]) = Some y" by simp
        from IH [OF rec] y obtain ls' where
          o: "out = (leaves @ [leaf]) @ ls'"
          and b: "length toks \<le> i + m + length ls' * m"
          and s: "\<forall>k < length ls'. i + m + k * m < length toks \<and>
                    leafFor (g + 1 + k) (length (leaves @ [leaf]) + k)
                      (take m (drop (i + m + k * m) toks)) = Inr (ls' ! k)"
          by blast
        have "\<forall>k < length (leaf # ls'). i + k * m < length toks \<and>
                 leafFor (g + k) (length leaves + k) (take m (drop (i + k * m) toks))
                   = Inr ((leaf # ls') ! k)"
        proof (intro allI impI)
          fix k
          assume k: "k < length (leaf # ls')"
          show "i + k * m < length toks \<and>
                 leafFor (g + k) (length leaves + k) (take m (drop (i + k * m) toks))
                   = Inr ((leaf # ls') ! k)"
          proof (cases k)
            case 0
            with True Inr show ?thesis by simp
          next
            case (Suc k')
            with k have "k' < length ls'" by simp
            with s have "i + m + k' * m < length toks \<and>
                    leafFor (g + 1 + k') (length (leaves @ [leaf]) + k')
                      (take m (drop (i + m + k' * m) toks)) = Inr (ls' ! k')" by blast
            with Suc show ?thesis by (simp add: add.assoc)
          qed
        qed
        with o b show ?thesis
          by (intro exI [of _ "leaf # ls'"]) (simp add: add.assoc)
      qed
    qed
  qed
qed

lemma leavesLoop_Inr:
  assumes "leavesLoop leafFor toks m i g leaves = Some (Inr out)"
  shows "\<exists>ls. out = leaves @ ls \<and> length toks \<le> i + length ls * m \<and>
           (\<forall>k < length ls. i + k * m < length toks \<and>
              leafFor (g + k) (length leaves + k) (take m (drop (i + k * m) toks))
                = Inr (ls ! k))"
  using leavesLoop_result [OF assms] by blast

lemma leavesForChain_Inr:
  assumes "leavesForChain blk balances fees cfg mx tt c leaves = Some (Inr out)"
  shows "\<exists>cb ls. map_of balances c = Some cb \<and> out = leaves @ ls \<and>
           chainLeaves (maxL1TokensPerLeaf mx cfg blk) (sort_key addressValue (objectKeys cb)) c (length leaves) ls"
proof -
  from assms obtain cb where cb: "map_of balances c = Some cb"
    and loop: "leavesLoop (makeLeaf blk balances fees cfg tt c) (sort_key addressValue (objectKeys cb))
                 (maxL1TokensPerLeaf mx cfg blk) 0 0 leaves = Some (Inr out)"
    by (auto simp: leavesForChain_def split: option.splits)
  from leavesLoop_Inr [OF loop] obtain ls where
    o: "out = leaves @ ls"
    and b: "length (sort_key addressValue (objectKeys cb)) \<le> length ls * maxL1TokensPerLeaf mx cfg blk"
    and s: "\<forall>k < length ls. k * maxL1TokensPerLeaf mx cfg blk < length (sort_key addressValue (objectKeys cb)) \<and>
               makeLeaf blk balances fees cfg tt c k (length leaves + k)
                 (take (maxL1TokensPerLeaf mx cfg blk)
                    (drop (k * maxL1TokensPerLeaf mx cfg blk) (sort_key addressValue (objectKeys cb))))
               = Inr (ls ! k)"
    by auto
  have "chainLeaves (maxL1TokensPerLeaf mx cfg blk) (sort_key addressValue (objectKeys cb)) c (length leaves) ls"
    unfolding chainLeaves_def
  proof (intro conjI allI impI)
    show "length (sort_key addressValue (objectKeys cb)) \<le> length ls * maxL1TokensPerLeaf mx cfg blk"
      by (rule b)
  next
    fix k assume "k < length ls"
    with s have lt: "k * maxL1TokensPerLeaf mx cfg blk < length (sort_key addressValue (objectKeys cb))"
      and mk: "makeLeaf blk balances fees cfg tt c k (length leaves + k)
                 (take (maxL1TokensPerLeaf mx cfg blk)
                    (drop (k * maxL1TokensPerLeaf mx cfg blk) (sort_key addressValue (objectKeys cb))))
               = Inr (ls ! k)"
      by blast+
    note f = makeLeaf_Inr [OF mk]
    show "k * maxL1TokensPerLeaf mx cfg blk < length (sort_key addressValue (objectKeys cb))" by (rule lt)
    show "chainId (ls ! k) = c" using f by blast
    show "groupIndex (ls ! k) = k" using f by blast
    show "leafId (ls ! k) = length leaves + k" using f by blast
    show "l1Tokens (ls ! k) = take (maxL1TokensPerLeaf mx cfg blk)
            (drop (k * maxL1TokensPerLeaf mx cfg blk) (sort_key addressValue (objectKeys cb)))" using f by blast
    show "length (bundleLpFees (ls ! k)) = length (l1Tokens (ls ! k))" using f by simp
    show "length (netSendAmounts (ls ! k)) = length (l1Tokens (ls ! k))" using f by simp
    show "length (runningBalances (ls ! k)) = length (l1Tokens (ls ! k))" using f by simp
  qed
  with cb o show ?thesis by blast
qed

lemma forEachChain_invariant:
  assumes "forEachChain body cs acc = Some (Inr out)"
    and "I cs acc"
    and "\<And>c rest acc out. I (c # rest) acc \<Longrightarrow> body c acc = Some (Inr out) \<Longrightarrow> I rest out"
  shows "I [] out"
  using assms(1,2)
proof (induction cs arbitrary: acc)
  case Nil
  then show ?case by simp
next
  case (Cons c cs)
  from Cons.prems(1) obtain acc' where b: "body c acc = Some (Inr acc')"
    and r: "forEachChain body cs acc' = Some (Inr out)"
    by (auto split: option.splits sum.splits)
  from assms(3) [OF Cons.prems(2) b] have "I cs acc'" .
  with Cons.IH r show ?case by blast
qed

lemma forEachChain_cong:
  assumes "\<And>c acc. c \<in> set cs \<Longrightarrow> body1 c acc = body2 c acc"
  shows "forEachChain body1 cs acc = forEachChain body2 cs acc"
  using assms
  by (induction cs arbitrary: acc) (auto split: option.splits sum.splits)

lemma distinct_objectKeys: "distinct (objectKeys obj)"
  by (simp add: objectKeys_def distinct_clearjunk)

lemma set_objectKeys: "set (objectKeys obj) = fst ` set obj"
  using clearjunk_keys_set [of obj] by (simp add: objectKeys_def)

lemma set_objectKeys_dom: "set (objectKeys obj) = dom (map_of obj)"
  by (simp add: set_objectKeys dom_map_of_conv_image_fst)

lemma strict_sorted_objectKeys: "sorted_wrt (<) (sort (objectKeys obj))"
  by (simp add: strict_sorted_iff distinct_objectKeys)

lemma sorted_tokens: "sorted (map addressValue (sort_key addressValue (objectKeys obj)))"
  by (rule sorted_sort_key)

lemma distinct_tokens: "distinct (sort_key addressValue (objectKeys obj))"
  by (simp add: distinct_objectKeys)

lemma strict_sorted_tokens:
  assumes "inj_on addressValue (fst ` set obj)"
  shows "sorted_wrt (\<lambda>a b. addressValue a < addressValue b)
           (sort_key addressValue (objectKeys obj))"
proof -
  from assms have "inj_on addressValue (set (sort_key addressValue (objectKeys obj)))"
    by (simp add: set_objectKeys)
  then have "distinct (map addressValue (sort_key addressValue (objectKeys obj)))"
    by (simp add: distinct_map distinct_objectKeys)
  with sorted_tokens [of obj]
  have "sorted_wrt (<) (map addressValue (sort_key addressValue (objectKeys obj)))"
    by (simp add: strict_sorted_iff)
  then show ?thesis by (simp add: sorted_wrt_map)
qed


lemma chainLeaves_nth:
  assumes "chainLeaves m toks c base ls" and "k < length ls"
  shows "k * m < length toks" "chainId (ls ! k) = c" "groupIndex (ls ! k) = k"
    "leafId (ls ! k) = base + k" "l1Tokens (ls ! k) = take m (drop (k * m) toks)"
    "length (bundleLpFees (ls ! k)) = length (l1Tokens (ls ! k))"
    "length (netSendAmounts (ls ! k)) = length (l1Tokens (ls ! k))"
    "length (runningBalances (ls ! k)) = length (l1Tokens (ls ! k))"
  using assms unfolding chainLeaves_def by blast+

lemma chainLeaves_bound: "chainLeaves m toks c base ls \<Longrightarrow> length toks \<le> length ls * m"
  unfolding chainLeaves_def by blast

lemma chainLeaves_chainId:
  assumes "chainLeaves m toks c base ls" and "l \<in> set ls"
  shows "chainId l = c"
  using assms chainLeaves_nth(2) by (metis in_set_conv_nth)

lemma chainLeaves_leafIds:
  assumes "chainLeaves m toks c base ls"
  shows "map leafId ls = [base..<base + length ls]"
  by (rule nth_equalityI) (simp_all add: chainLeaves_nth(4) [OF assms])

lemma chainLeaves_groupIndexes:
  assumes "chainLeaves m toks c base ls"
  shows "map groupIndex ls = [0..<length ls]"
  by (rule nth_equalityI) (simp_all add: chainLeaves_nth(3) [OF assms])

lemma chainLeaves_pos:
  assumes "chainLeaves m toks c base ls" and "ls \<noteq> []"
  shows "0 < m"
proof (rule ccontr)
  assume "\<not> 0 < m"
  then have "m = 0" by simp
  moreover from assms(2) have "0 < length ls" by simp
  ultimately show False
    using chainLeaves_nth(1) [OF assms(1), of 0] chainLeaves_bound [OF assms(1)] by simp
qed

lemma concat_groups: "concat (map (\<lambda>k. take m (drop (k * m) xs)) [0..<n]) = take (n * m) xs"
proof (induction n)
  case 0
  show ?case by simp
next
  case (Suc n)
  have "take (n * m) xs @ take m (drop (n * m) xs) = take (n * m + m) xs"
    by (simp add: take_add)
  with Suc show ?case by (simp add: add.commute)
qed

lemma chainLeaves_l1Tokens:
  assumes "chainLeaves m toks c base ls"
  shows "map l1Tokens ls = map (\<lambda>k. take m (drop (k * m) toks)) [0..<length ls]"
  by (rule nth_equalityI) (simp_all add: chainLeaves_nth(5) [OF assms])

lemma chainLeaves_concat:
  assumes "chainLeaves m toks c base ls"
  shows "concat (map l1Tokens ls) = toks"
  using chainLeaves_bound [OF assms]
  by (simp add: chainLeaves_l1Tokens [OF assms] concat_groups)

lemma chainLeaves_order:
  assumes "chainLeaves m toks c base ls"
  shows "sorted_wrt (\<lambda>a b. chainId a < chainId b \<or>
           (chainId a = chainId b \<and> groupIndex a < groupIndex b)) ls"
  unfolding sorted_wrt_iff_nth_less
  by (auto simp: chainLeaves_nth(2,3) [OF assms])

lemma example_run:
  "constructPoolRebalanceLeaves 0 fiveTokenBalances exampleFees exampleConfig None
     (Some exampleThresholds) = Some (Inr exampleLeaves)"
  by (simp add: constructPoolRebalanceLeaves_def fiveTokenBalances_def exampleFees_def
      exampleConfig_def exampleThresholds_def exampleLeaves_def objectKeys_def
      leavesForChain_def leavesLoop.simps maxL1TokensPerLeaf_def makeLeaf_def
      transferThreshold_def balanceOf_def getNetSendAmountForL1Token_def
      getRunningBalanceForL1Token_def addressValue_def hexDigit_def)

text \<open>
  C7. Across the whole output the leaf ids are \<open>0, 1, ..., N - 1\<close> in the order of the
  list, and the list is in ascending order of chain id and, within a chain, of group index.
\<close>

theorem leafIds_count_up_in_chain_then_group_order:
  assumes "constructPoolRebalanceLeaves blk balances fees cfg mx tt = Some (Inr leaves)"
  shows "map leafId leaves = [0..<length leaves]
       \<and> sorted_wrt (\<lambda>a b. chainId a < chainId b \<or>
            (chainId a = chainId b \<and> groupIndex a < groupIndex b)) leaves"
proof -
  let ?lt = "\<lambda>a b. chainId a < chainId b \<or>
               (chainId a = chainId b \<and> groupIndex a < groupIndex b)"
  let ?I = "\<lambda>cs acc. map leafId acc = [0..<length acc] \<and> sorted_wrt ?lt acc \<and>
              sorted_wrt (<) cs \<and> (\<forall>l \<in> set acc. \<forall>c \<in> set cs. chainId l < c)"
  have "?I [] leaves"
  proof (rule forEachChain_invariant [where I = ?I,
        OF assms [unfolded constructPoolRebalanceLeaves_def]])
    show "?I (sort (objectKeys balances)) []"
      by (simp add: strict_sorted_objectKeys)
  next
    fix c rest acc out
    assume I: "?I (c # rest) acc"
      and b: "leavesForChain blk balances fees cfg mx tt c acc = Some (Inr out)"
    from leavesForChain_Inr [OF b] obtain cb ls where
      cb: "map_of balances c = Some cb"
      and o: "out = acc @ ls"
      and cl: "chainLeaves (maxL1TokensPerLeaf mx cfg blk) (sort_key addressValue (objectKeys cb)) c
                 (length acc) ls"
      by blast
    have "map leafId out = [0..<length acc] @ [length acc..<length acc + length ls]"
      using I chainLeaves_leafIds [OF cl] by (simp add: o)
    also have "\<dots> = [0..<length acc + length ls]"
      by (rule upt_add_eq_append [symmetric]) simp
    finally have ids: "map leafId out = [0..<length out]"
      by (simp add: o)
    have ch: "\<forall>l \<in> set ls. chainId l = c"
      using chainLeaves_chainId [OF cl] by blast
    have ord: "sorted_wrt ?lt out"
      using I chainLeaves_order [OF cl] ch by (auto simp: o sorted_wrt_append)
    have rest: "sorted_wrt (<) rest" using I by simp
    have below: "\<forall>l \<in> set out. \<forall>c' \<in> set rest. chainId l < c'"
      using I ch by (auto simp: o)
    from ids ord rest below show "?I rest out" by blast
  qed
  then show ?thesis by blast
qed

theorem leafIds_count_up_in_chain_then_group_order_witness:
  "map leafId exampleLeaves = [0, 1, 2, 3]
   \<and> map (\<lambda>l. (chainId l, groupIndex l)) exampleLeaves = [(1, 0), (10, 0), (10, 1), (10, 2)]"
  using leafIds_count_up_in_chain_then_group_order [OF example_run]
  by (simp add: exampleLeaves_def)

text \<open>
  C8 (amended). In every leaf of the output the four sequences \<open>l1Tokens\<close>,
  \<open>bundleLpFees\<close>, \<open>netSendAmounts\<close> and \<open>runningBalances\<close> have the same length, that
  length is at most the number of tokens allowed per leaf, and \<open>l1Tokens\<close> is ascending
  by address and repeats no key; it is strictly ascending by address when no two token
  keys of the leaf's chain spell the same address.
\<close>

theorem leaf_shape:
  assumes "constructPoolRebalanceLeaves blk balances fees cfg mx tt = Some (Inr leaves)"
    and "l \<in> set leaves"
  shows "length (bundleLpFees l) = length (l1Tokens l)
       \<and> length (netSendAmounts l) = length (l1Tokens l)
       \<and> length (runningBalances l) = length (l1Tokens l)
       \<and> length (l1Tokens l) \<le> maxL1TokensPerLeaf mx cfg blk
       \<and> sorted (map addressValue (l1Tokens l))
       \<and> distinct (l1Tokens l)
       \<and> ((\<forall>cb. map_of balances (chainId l) = Some cb \<longrightarrow>
                 inj_on addressValue (fst ` set cb))
            \<longrightarrow> sorted_wrt (\<lambda>a b. addressValue a < addressValue b) (l1Tokens l))"
proof -
  let ?shape = "\<lambda>l. length (bundleLpFees l) = length (l1Tokens l)
       \<and> length (netSendAmounts l) = length (l1Tokens l)
       \<and> length (runningBalances l) = length (l1Tokens l)
       \<and> length (l1Tokens l) \<le> maxL1TokensPerLeaf mx cfg blk
       \<and> sorted (map addressValue (l1Tokens l))
       \<and> distinct (l1Tokens l)
       \<and> ((\<forall>cb. map_of balances (chainId l) = Some cb \<longrightarrow>
                 inj_on addressValue (fst ` set cb))
            \<longrightarrow> sorted_wrt (\<lambda>a b. addressValue a < addressValue b) (l1Tokens l))"
  let ?I = "\<lambda>(cs :: nat list) acc. \<forall>l \<in> set acc. ?shape l"
  have "?I [] leaves"
  proof (rule forEachChain_invariant [where I = ?I,
        OF assms(1) [unfolded constructPoolRebalanceLeaves_def]])
    show "?I (sort (objectKeys balances)) []" by simp
  next
    fix c rest acc out
    assume I: "?I (c # rest) acc"
      and b: "leavesForChain blk balances fees cfg mx tt c acc = Some (Inr out)"
    from leavesForChain_Inr [OF b] obtain cb ls where
      cb: "map_of balances c = Some cb"
      and o: "out = acc @ ls"
      and cl: "chainLeaves (maxL1TokensPerLeaf mx cfg blk)
                 (sort_key addressValue (objectKeys cb)) c (length acc) ls"
      by blast
    let ?m = "maxL1TokensPerLeaf mx cfg blk"
    let ?toks = "sort_key addressValue (objectKeys cb)"
    have "?shape l" if "l \<in> set ls" for l
    proof -
      from that obtain k where k: "k < length ls" and l: "l = ls ! k"
        by (auto simp: in_set_conv_nth)
      note f = chainLeaves_nth [OF cl k]
      have "sorted (take ?m (drop (k * ?m) (map addressValue ?toks)))"
        by (intro sorted_wrt_take sorted_wrt_drop sorted_tokens)
      then have s1: "sorted (map addressValue (take ?m (drop (k * ?m) ?toks)))"
        by (simp add: take_map drop_map)
      have s2: "distinct (take ?m (drop (k * ?m) ?toks))"
        by (intro distinct_take distinct_drop distinct_tokens)
      have s3: "sorted_wrt (\<lambda>a b. addressValue a < addressValue b)
                  (take ?m (drop (k * ?m) ?toks))"
        if "inj_on addressValue (fst ` set cb)"
        by (intro sorted_wrt_take sorted_wrt_drop strict_sorted_tokens that)
      from f s1 s2 s3 cb show ?thesis by (simp add: l)
    qed
    with I show "?I rest out" by (auto simp: o)
  qed
  with assms(2) show ?thesis by blast
qed

theorem leaf_shape_witness:
  "exampleLeaves ! 2 \<in> set exampleLeaves
   \<and> l1Tokens (exampleLeaves ! 2) = [''0x03'', ''0x04'']
   \<and> length (bundleLpFees (exampleLeaves ! 2)) = 2
   \<and> length (netSendAmounts (exampleLeaves ! 2)) = 2
   \<and> length (runningBalances (exampleLeaves ! 2)) = 2
   \<and> maxL1TokensPerLeaf None exampleConfig 0 = 2
   \<and> sorted_wrt (\<lambda>a b. addressValue a < addressValue b) (l1Tokens (exampleLeaves ! 2))"
proof -
  have m: "exampleLeaves ! 2 \<in> set exampleLeaves" by (simp add: exampleLeaves_def)
  have c: "chainId (exampleLeaves ! 2) = 10" by (simp add: exampleLeaves_def)
  have v: "addressValue ''0x01'' = 1" "addressValue ''0x02'' = 2" "addressValue ''0x03'' = 3"
    "addressValue ''0x04'' = 4" "addressValue ''0x05'' = 5"
    by (simp_all add: addressValue_def hexDigit_def)
  have i: "\<forall>cb. map_of fiveTokenBalances (chainId (exampleLeaves ! 2)) = Some cb \<longrightarrow>
             inj_on addressValue (fst ` set cb)"
    by (simp add: c fiveTokenBalances_def v)
  from leaf_shape [OF example_run m] i
  have "sorted_wrt (\<lambda>a b. addressValue a < addressValue b) (l1Tokens (exampleLeaves ! 2))"
    and "length (l1Tokens (exampleLeaves ! 2)) \<le> maxL1TokensPerLeaf None exampleConfig 0"
    by blast+
  with m show ?thesis
    by (simp add: exampleLeaves_def maxL1TokensPerLeaf_def exampleConfig_def)
qed

text \<open>
  C8 as stated says strictly ascending: two keys of a chain that spell one address are
  both kept by \<open>Object.keys\<close> and compare equal, so they stand side by side in a leaf.
\<close>

theorem two_spellings_counterexample:
  "constructPoolRebalanceLeaves 0 twoSpellings [] exampleConfig None (Some exampleThresholds)
     = Some (Inr [twoSpellingsLeaf])
   \<and> l1Tokens twoSpellingsLeaf = [''0xab'', ''0xAB'']
   \<and> addressValue ''0xab'' = addressValue ''0xAB''"
  by (simp add: constructPoolRebalanceLeaves_def twoSpellings_def twoSpellingsLeaf_def
      exampleConfig_def exampleThresholds_def objectKeys_def
      leavesForChain_def leavesLoop.simps maxL1TokensPerLeaf_def makeLeaf_def
      transferThreshold_def balanceOf_def getNetSendAmountForL1Token_def
      getRunningBalanceForL1Token_def addressValue_def hexDigit_def)

lemma mapE_total:
  assumes "\<And>x. x \<in> set xs \<Longrightarrow> \<exists>y. f x = Inr y"
  shows "\<exists>ys. mapE f xs = Inr ys"
  using assms
proof (induction xs)
  case Nil
  show ?case by simp
next
  case (Cons x xs)
  from Cons.prems obtain y where y: "f x = Inr y" by auto
  from Cons obtain ys where "mapE f xs = Inr ys" by auto
  with y show ?case by simp
qed

lemma makeLeaf_total:
  assumes cb: "map_of balances c = Some cb"
    and sub: "set toks \<subseteq> fst ` set cb"
  shows "\<exists>leaf. makeLeaf blk balances fees cfg (Some th) c g n toks = Inr leaf"
proof -
  have "\<exists>ths. mapE (transferThreshold cfg blk (Some th)) toks = Inr ths"
    by (rule mapE_total) (simp add: transferThreshold_def split: option.splits)
  then obtain ths where t: "mapE (transferThreshold cfg blk (Some th)) toks = Inr ths" ..
  have bal: "\<exists>b. balanceOf cb t = Inr b" if "t \<in> set toks" for t
  proof -
    from that sub have "t \<in> fst ` set cb" by blast
    then have "map_of cb t \<noteq> None" by (simp add: map_of_eq_None_iff)
    then show ?thesis by (auto simp: balanceOf_def)
  qed
  have "\<exists>nets. mapE (\<lambda>(l1Token, threshold).
                        case balanceOf cb l1Token of
                          Inl e \<Rightarrow> Inl e
                        | Inr b \<Rightarrow> Inr (getNetSendAmountForL1Token threshold b))
                  (zip toks ths) = Inr nets"
  proof (rule mapE_total)
    fix x assume "x \<in> set (zip toks ths)"
    then have "fst x \<in> set toks" by (metis set_zip_leftD prod.collapse)
    from bal [OF this] show "\<exists>y. (case x of (l1Token, threshold) \<Rightarrow>
                        case balanceOf cb l1Token of
                          Inl e \<Rightarrow> Inl e
                        | Inr b \<Rightarrow> Inr (getNetSendAmountForL1Token threshold b)) = Inr y"
      by (cases x) auto
  qed
  then obtain nets where n: "mapE (\<lambda>(l1Token, threshold).
                        case balanceOf cb l1Token of
                          Inl e \<Rightarrow> Inl e
                        | Inr b \<Rightarrow> Inr (getNetSendAmountForL1Token threshold b))
                  (zip toks ths) = Inr nets" ..
  have "\<exists>carried. mapE (\<lambda>(l1Token, threshold).
                        case balanceOf cb l1Token of
                          Inl e \<Rightarrow> Inl e
                        | Inr b \<Rightarrow> Inr (getRunningBalanceForL1Token threshold b))
                  (zip toks ths) = Inr carried"
  proof (rule mapE_total)
    fix x assume "x \<in> set (zip toks ths)"
    then have "fst x \<in> set toks" by (metis set_zip_leftD prod.collapse)
    from bal [OF this] show "\<exists>y. (case x of (l1Token, threshold) \<Rightarrow>
                        case balanceOf cb l1Token of
                          Inl e \<Rightarrow> Inl e
                        | Inr b \<Rightarrow> Inr (getRunningBalanceForL1Token threshold b)) = Inr y"
      by (cases x) auto
  qed
  then obtain carried where r: "mapE (\<lambda>(l1Token, threshold).
                        case balanceOf cb l1Token of
                          Inl e \<Rightarrow> Inl e
                        | Inr b \<Rightarrow> Inr (getRunningBalanceForL1Token threshold b))
                  (zip toks ths) = Inr carried" ..
  show ?thesis
    unfolding makeLeaf_def by (simp add: t cb n r)
qed

lemma leavesLoop_total:
  assumes "0 < m"
    and "\<And>g n ts. set ts \<subseteq> set toks \<Longrightarrow> \<exists>leaf. leafFor g n ts = Inr leaf"
  shows "\<exists>out. leavesLoop leafFor toks m i g leaves = Some (Inr out)"
proof (induction "length toks - i" arbitrary: i g leaves rule: less_induct)
  case less
  show ?case
  proof (cases "i < length toks")
    case False
    then show ?thesis by (subst leavesLoop.simps) simp
  next
    case True
    have "set (take m (drop i toks)) \<subseteq> set toks"
      by (meson set_take_subset set_drop_subset subset_trans)
    from assms(2) [OF this] obtain leaf where
      l: "leafFor g (length leaves) (take m (drop i toks)) = Inr leaf" by blast
    from True assms(1) have "length toks - (i + m) < length toks - i" by simp
    from less [OF this] obtain out where
      "leavesLoop leafFor toks m (i + m) (g + 1) (leaves @ [leaf]) = Some (Inr out)" by blast
    with True l show ?thesis by (subst leavesLoop.simps) simp
  qed
qed

lemma forEachChain_total:
  assumes "\<And>c acc. c \<in> set cs \<Longrightarrow> \<exists>out. body c acc = Some (Inr out)"
  shows "\<exists>out. forEachChain body cs acc = Some (Inr out)"
  using assms
proof (induction cs arbitrary: acc)
  case Nil
  show ?case by simp
next
  case (Cons c cs)
  from Cons.prems [of c acc] obtain acc' where b: "body c acc = Some (Inr acc')" by auto
  have "\<exists>out. forEachChain body cs acc' = Some (Inr out)"
    by (rule Cons.IH) (simp add: Cons.prems)
  with b show ?case by simp
qed

lemma constructPoolRebalanceLeaves_returns:
  assumes "0 < maxL1TokensPerLeaf mx cfg blk"
  shows "\<exists>leaves. constructPoolRebalanceLeaves blk balances fees cfg mx (Some th)
                     = Some (Inr leaves)"
  unfolding constructPoolRebalanceLeaves_def
proof (rule forEachChain_total)
  fix c acc
  assume "c \<in> set (sort (objectKeys balances))"
  then have "map_of balances c \<noteq> None"
    by (simp add: set_objectKeys_dom dom_def)
  then obtain cb where cb: "map_of balances c = Some cb" by blast
  have "\<exists>out. leavesLoop (makeLeaf blk balances fees cfg (Some th) c) (sort_key addressValue (objectKeys cb))
                 (maxL1TokensPerLeaf mx cfg blk) 0 0 acc = Some (Inr out)"
  proof (rule leavesLoop_total [OF assms])
    fix g n ts
    assume "set ts \<subseteq> set (sort_key addressValue (objectKeys cb))"
    then have "set ts \<subseteq> fst ` set cb" by (simp add: set_objectKeys)
    from makeLeaf_total [OF cb this]
    show "\<exists>leaf. makeLeaf blk balances fees cfg (Some th) c g n ts = Inr leaf" .
  qed
  with cb show "\<exists>out. leavesForChain blk balances fees cfg mx (Some th) c acc = Some (Inr out)"
    by (simp add: leavesForChain_def)
qed

lemma chainLeaves_groups:
  assumes "chainLeaves m toks c base ls" and "l \<in> set ls"
  shows "l1Tokens l \<noteq> [] \<and> length (l1Tokens l) \<le> m"
proof -
  from assms(2) obtain k where k: "k < length ls" and l: "l = ls ! k"
    by (auto simp: in_set_conv_nth)
  from assms(2) have "ls \<noteq> []" by auto
  from chainLeaves_pos [OF assms(1) this] have m: "0 < m" .
  from chainLeaves_nth(1,5) [OF assms(1) k] m show ?thesis by (simp add: l)
qed

lemma chainLeaves_last:
  assumes "chainLeaves m toks c base ls" and "ls \<noteq> []"
  shows "(length ls - 1) * m < length toks"
  using chainLeaves_nth(1) [OF assms(1), of "length ls - 1"] assms(2) by simp

lemma leaves_of_chain:
  assumes "constructPoolRebalanceLeaves blk balances fees cfg mx tt = Some (Inr leaves)"
  shows "(\<forall>l \<in> set leaves. chainId l \<in> fst ` set balances)
       \<and> (\<forall>c \<in> fst ` set balances. \<exists>cb base. map_of balances c = Some cb \<and>
             chainLeaves (maxL1TokensPerLeaf mx cfg blk) (sort_key addressValue (objectKeys cb)) c base
               (filter (\<lambda>l. chainId l = c) leaves))"
proof -
  let ?K = "fst ` set balances"
  let ?m = "maxL1TokensPerLeaf mx cfg blk"
  let ?I = "\<lambda>cs acc. distinct cs \<and> set cs \<subseteq> ?K \<and>
              (\<forall>l \<in> set acc. chainId l \<in> ?K - set cs) \<and>
              (\<forall>c \<in> ?K - set cs. \<exists>cb base. map_of balances c = Some cb \<and>
                 chainLeaves ?m (sort_key addressValue (objectKeys cb)) c base
                   (filter (\<lambda>l. chainId l = c) acc))"
  have "?I [] leaves"
  proof (rule forEachChain_invariant [where I = ?I,
        OF assms [unfolded constructPoolRebalanceLeaves_def]])
    show "?I (sort (objectKeys balances)) []"
      by (simp add: distinct_objectKeys set_objectKeys)
  next
    fix c rest acc out
    assume I: "?I (c # rest) acc"
      and b: "leavesForChain blk balances fees cfg mx tt c acc = Some (Inr out)"
    from leavesForChain_Inr [OF b] obtain cb ls where
      cb: "map_of balances c = Some cb"
      and o: "out = acc @ ls"
      and cl: "chainLeaves ?m (sort_key addressValue (objectKeys cb)) c (length acc) ls"
      by blast
    have ch: "\<forall>l \<in> set ls. chainId l = c"
      using chainLeaves_chainId [OF cl] by blast
    from I have cK: "c \<in> ?K" and cr: "c \<notin> set rest" by auto
    have acc_c: "filter (\<lambda>l. chainId l = c) acc = []"
      using I by (auto simp: filter_empty_conv)
    have ls_c: "filter (\<lambda>l. chainId l = c) ls = ls"
      using ch by (simp add: filter_id_conv)
    have d: "distinct rest" and s: "set rest \<subseteq> ?K" using I by auto
    have mem: "\<forall>l \<in> set out. chainId l \<in> ?K - set rest"
      using I ch cK cr by (auto simp: o)
    have seg: "\<exists>cb base. map_of balances c' = Some cb \<and>
                 chainLeaves ?m (sort_key addressValue (objectKeys cb)) c' base
                   (filter (\<lambda>l. chainId l = c') out)"
      if c': "c' \<in> ?K - set rest" for c'
    proof (cases "c' = c")
      case True
      with cb cl show ?thesis by (auto simp: o acc_c ls_c)
    next
      case False
      with ch have "filter (\<lambda>l. chainId l = c') ls = []"
        by (auto simp: filter_empty_conv)
      moreover from False c' have "c' \<in> ?K - set (c # rest)" by simp
      with I have "\<exists>cb base. map_of balances c' = Some cb \<and>
                 chainLeaves ?m (sort_key addressValue (objectKeys cb)) c' base
                   (filter (\<lambda>l. chainId l = c') acc)" by blast
      ultimately show ?thesis by (simp add: o)
    qed
    from d s mem seg show "?I rest out" by blast
  qed
  then show ?thesis by simp
qed

text \<open>
  C9. The builder returns whenever the number of tokens per leaf is positive and the
  thresholds are given. In every output, the leaves of a chain, in order, have group
  indexes \<open>0, 1, ..., k - 1\<close>; the leaf with group index \<open>g\<close> holds the tokens at positions
  \<open>g * m, ..., g * m + m - 1\<close> of the chain's sorted tokens (\<open>m\<close> tokens per leaf at most, no
  group empty); the groups together are the sorted tokens; and there are exactly as many
  leaves as it takes to cover the tokens. With 5 tokens and \<open>m = 2\<close> these are 3 leaves
  with group indexes 0, 1, 2 and 2, 2, 1 tokens.
\<close>

theorem tokens_split_into_consecutive_groups:
  assumes "m = maxL1TokensPerLeaf mx cfg blk"
    and "tokens = (case map_of balances c of None \<Rightarrow> [] | Some cb \<Rightarrow> sort_key addressValue (objectKeys cb))"
  shows "(0 < m \<and> tt \<noteq> None \<longrightarrow>
            (\<exists>leaves. constructPoolRebalanceLeaves blk balances fees cfg mx tt
                        = Some (Inr leaves)))
       \<and> (\<forall>leaves ls.
            constructPoolRebalanceLeaves blk balances fees cfg mx tt = Some (Inr leaves) \<and>
            ls = filter (\<lambda>l. chainId l = c) leaves \<longrightarrow>
              map groupIndex ls = [0..<length ls]
            \<and> map l1Tokens ls = map (\<lambda>g. take m (drop (g * m) tokens)) [0..<length ls]
            \<and> concat (map l1Tokens ls) = tokens
            \<and> (\<forall>l \<in> set ls. l1Tokens l \<noteq> [] \<and> length (l1Tokens l) \<le> m)
            \<and> length tokens \<le> length ls * m
            \<and> (ls \<noteq> [] \<longrightarrow> (length ls - 1) * m < length tokens))"
proof (intro conjI impI allI)
  assume "0 < m \<and> tt \<noteq> None"
  then obtain th where "tt = Some th" and "0 < maxL1TokensPerLeaf mx cfg blk"
    using assms(1) by auto
  then show "\<exists>leaves. constructPoolRebalanceLeaves blk balances fees cfg mx tt
                        = Some (Inr leaves)"
    using constructPoolRebalanceLeaves_returns by simp
next
  fix leaves ls
  assume a: "constructPoolRebalanceLeaves blk balances fees cfg mx tt = Some (Inr leaves) \<and>
            ls = filter (\<lambda>l. chainId l = c) leaves"
  then have run: "constructPoolRebalanceLeaves blk balances fees cfg mx tt = Some (Inr leaves)"
    and ls: "ls = filter (\<lambda>l. chainId l = c) leaves" by simp_all
  note lc = leaves_of_chain [OF run]
  have "\<exists>base. chainLeaves m tokens c base ls"
  proof (cases "c \<in> fst ` set balances")
    case True
    with lc obtain cb base where "map_of balances c = Some cb"
      and "chainLeaves m (sort_key addressValue (objectKeys cb)) c base ls"
      unfolding assms(1) ls by blast
    then show ?thesis by (auto simp: assms(2))
  next
    case False
    then have "map_of balances c = None" by (simp add: map_of_eq_None_iff)
    moreover from False lc have "ls = []" by (auto simp: ls filter_empty_conv)
    ultimately show ?thesis by (simp add: assms(2) chainLeaves_def)
  qed
  then obtain base where cl: "chainLeaves m tokens c base ls" ..
  show "map groupIndex ls = [0..<length ls]" by (rule chainLeaves_groupIndexes [OF cl])
  show "map l1Tokens ls = map (\<lambda>g. take m (drop (g * m) tokens)) [0..<length ls]"
    by (rule chainLeaves_l1Tokens [OF cl])
  show "concat (map l1Tokens ls) = tokens" by (rule chainLeaves_concat [OF cl])
  show "\<forall>l \<in> set ls. l1Tokens l \<noteq> [] \<and> length (l1Tokens l) \<le> m"
    using chainLeaves_groups [OF cl] by blast
  show "length tokens \<le> length ls * m" by (rule chainLeaves_bound [OF cl])
  show "(length ls - 1) * m < length tokens" if "ls \<noteq> []"
    by (rule chainLeaves_last [OF cl that])
qed

theorem tokens_split_into_consecutive_groups_witness:
  "maxL1TokensPerLeaf None exampleConfig 0 = 2
   \<and> (case map_of fiveTokenBalances 10 of
         None \<Rightarrow> [] | Some cb \<Rightarrow> sort_key addressValue (objectKeys cb))
       = [''0x01'', ''0x02'', ''0x03'', ''0x04'', ''0x05'']
   \<and> constructPoolRebalanceLeaves 0 fiveTokenBalances exampleFees exampleConfig None
       (Some exampleThresholds) = Some (Inr exampleLeaves)
   \<and> map groupIndex (filter (\<lambda>l. chainId l = 10) exampleLeaves) = [0, 1, 2]
   \<and> map l1Tokens (filter (\<lambda>l. chainId l = 10) exampleLeaves) = [[''0x01'', ''0x02''], [''0x03'', ''0x04''], [''0x05'']]"
proof -
  have m: "2 = maxL1TokensPerLeaf None exampleConfig 0"
    by (simp add: maxL1TokensPerLeaf_def exampleConfig_def)
  have t: "[''0x01'', ''0x02'', ''0x03'', ''0x04'', ''0x05''] =
      (case map_of fiveTokenBalances 10 of None \<Rightarrow> [] | Some cb \<Rightarrow> sort_key addressValue (objectKeys cb))"
    by (simp add: fiveTokenBalances_def objectKeys_def addressValue_def hexDigit_def)
  have n: "length (filter (\<lambda>l. chainId l = 10) exampleLeaves) = 3"
    by (simp add: exampleLeaves_def)
  have u: "[0..<3] = [0, 1, 2]" by (simp add: upt_rec)
  from tokens_split_into_consecutive_groups
    [of 2 None exampleConfig 0 "[''0x01'', ''0x02'', ''0x03'', ''0x04'', ''0x05'']" fiveTokenBalances 10 "Some exampleThresholds"
        exampleFees, OF m t] example_run
  have "map groupIndex (filter (\<lambda>l. chainId l = 10) exampleLeaves) = [0..<3]"
    and "map l1Tokens (filter (\<lambda>l. chainId l = 10) exampleLeaves)
         = map (\<lambda>g. take 2 (drop (g * 2) [''0x01'', ''0x02'', ''0x03'', ''0x04'', ''0x05''])) [0..<3]"
    unfolding n [symmetric] by blast+
  then have "map groupIndex (filter (\<lambda>l. chainId l = 10) exampleLeaves) = [0, 1, 2]"
    and "map l1Tokens (filter (\<lambda>l. chainId l = 10) exampleLeaves) = [[''0x01'', ''0x02''], [''0x03'', ''0x04''], [''0x05'']]"
    by (simp_all add: u)
  with m [symmetric] t [symmetric] example_run show ?thesis by blast
qed

lemma makeLeaf_cong:
  assumes "rel_option (\<lambda>x y. map_of x = map_of y) (map_of b1 c) (map_of b2 c)"
    and "rel_option (\<lambda>x y. map_of x = map_of y) (map_of f1 c) (map_of f2 c)"
  shows "makeLeaf blk b1 f1 cfg tt c = makeLeaf blk b2 f2 cfg tt c"
proof (intro ext)
  fix g n toks
  have bal: "balanceOf x = balanceOf y" if "map_of x = map_of y" for x y
    using that by (intro ext) (simp add: balanceOf_def)
  have fee: "(case map_of f1 c of
                Some chainFees \<Rightarrow> map (map_of chainFees) toks
              | None \<Rightarrow> replicate (length toks) (Some 0))
           = (case map_of f2 c of
                Some chainFees \<Rightarrow> map (map_of chainFees) toks
              | None \<Rightarrow> replicate (length toks) (Some 0))"
    using assms(2) by (cases rule: option.rel_cases) simp_all
  from assms(1) show "makeLeaf blk b1 f1 cfg tt c g n toks = makeLeaf blk b2 f2 cfg tt c g n toks"
  proof (cases rule: option.rel_cases)
    case None
    show ?thesis unfolding makeLeaf_def None option.case fee ..
  next
    case (Some x y)
    from Some(3) have eq: "balanceOf x = balanceOf y" by (rule bal)
    show ?thesis unfolding makeLeaf_def Some(1,2) option.case fee eq ..
  qed
qed

lemma leavesForChain_cong:
  assumes "rel_option (\<lambda>x y. map_of x = map_of y \<and>
              sort_key addressValue (objectKeys x) = sort_key addressValue (objectKeys y))
             (map_of b1 c) (map_of b2 c)"
    and "rel_option (\<lambda>x y. map_of x = map_of y) (map_of f1 c) (map_of f2 c)"
  shows "leavesForChain blk b1 f1 cfg mx tt c acc = leavesForChain blk b2 f2 cfg mx tt c acc"
proof -
  from assms(1) have m: "rel_option (\<lambda>x y. map_of x = map_of y) (map_of b1 c) (map_of b2 c)"
    by (rule option.rel_mono_strong) simp
  from assms(1) show ?thesis
  proof (cases rule: option.rel_cases)
    case None
    then show ?thesis by (simp add: leavesForChain_def)
  next
    case (Some x y)
    then show ?thesis
      by (simp add: leavesForChain_def makeLeaf_cong [OF m assms(2)])
  qed
qed





text \<open>
  C10. A chain that has realized fees but no entry in the running balances gets no leaf,
  and the result does not depend on the fees recorded for that chain: they appear nowhere
  in the output.
\<close>

theorem chain_without_running_balance_gets_no_leaf:
  assumes "c \<in> fst ` set fees" and "c \<notin> fst ` set balances"
  shows "(\<forall>leaves. constructPoolRebalanceLeaves blk balances fees cfg mx tt = Some (Inr leaves)
            \<longrightarrow> (\<forall>l \<in> set leaves. chainId l \<noteq> c))
       \<and> (\<forall>fees'. (\<forall>c'. c' \<noteq> c \<longrightarrow> map_of fees' c' = map_of fees c') \<longrightarrow>
            constructPoolRebalanceLeaves blk balances fees' cfg mx tt
            = constructPoolRebalanceLeaves blk balances fees cfg mx tt)"
proof (intro conjI allI impI)
  fix leaves
  assume "constructPoolRebalanceLeaves blk balances fees cfg mx tt = Some (Inr leaves)"
  from leaves_of_chain [OF this] assms(2) show "\<forall>l \<in> set leaves. chainId l \<noteq> c" by blast
next
  fix fees'
  assume same: "\<forall>c'. c' \<noteq> c \<longrightarrow> map_of fees' c' = map_of fees c'"
  have "forEachChain (leavesForChain blk balances fees' cfg mx tt)
          (sort (objectKeys balances)) []
      = forEachChain (leavesForChain blk balances fees cfg mx tt)
          (sort (objectKeys balances)) []"
  proof (rule forEachChain_cong)
    fix c' acc
    assume "c' \<in> set (sort (objectKeys balances))"
    with assms(2) have "c' \<noteq> c" by (auto simp: set_objectKeys)
    with same have "map_of fees' c' = map_of fees c'" by blast
    then have f: "rel_option (\<lambda>x y. map_of x = map_of y) (map_of fees' c') (map_of fees c')"
      by (simp add: option.rel_refl)
    have b: "rel_option (\<lambda>x y. map_of x = map_of y \<and>
                sort_key addressValue (objectKeys x) = sort_key addressValue (objectKeys y))
               (map_of balances c') (map_of balances c')"
      by (simp add: option.rel_refl)
    show "leavesForChain blk balances fees' cfg mx tt c' acc
        = leavesForChain blk balances fees cfg mx tt c' acc"
      by (rule leavesForChain_cong [OF b f])
  qed
  then show "constructPoolRebalanceLeaves blk balances fees' cfg mx tt
           = constructPoolRebalanceLeaves blk balances fees cfg mx tt"
    by (simp add: constructPoolRebalanceLeaves_def)
qed

theorem chain_without_running_balance_gets_no_leaf_witness:
  "map_of exampleFees 42 = Some [(''0x03'', 11)]
   \<and> 42 \<notin> fst ` set fiveTokenBalances
   \<and> 42 \<notin> chainId ` set exampleLeaves
   \<and> constructPoolRebalanceLeaves 0 fiveTokenBalances [(10, [(''0x03'', 9)])] exampleConfig None
       (Some exampleThresholds) = Some (Inr exampleLeaves)"
proof -
  have h1: "42 \<in> fst ` set exampleFees" by (simp add: exampleFees_def)
  have h2: "42 \<notin> fst ` set fiveTokenBalances" by (simp add: fiveTokenBalances_def)
  have h3: "\<forall>c'. c' \<noteq> 42 \<longrightarrow> map_of [(10, [(''0x03'', 9)])] c' = map_of exampleFees c'"
    by (simp add: exampleFees_def)
  have h4: "map_of exampleFees 42 = Some [(''0x03'', 11)]" by (simp add: exampleFees_def)
  from chain_without_running_balance_gets_no_leaf [OF h1 h2,
      of 0 exampleConfig None "Some exampleThresholds"] example_run h3
  have "\<forall>l \<in> set exampleLeaves. chainId l \<noteq> 42"
    and "constructPoolRebalanceLeaves 0 fiveTokenBalances [(10, [(''0x03'', 9)])] exampleConfig None
       (Some exampleThresholds) = Some (Inr exampleLeaves)"
    by (blast, metis)
  then have "42 \<notin> chainId ` set exampleLeaves"
    and "constructPoolRebalanceLeaves 0 fiveTokenBalances [(10, [(''0x03'', 9)])] exampleConfig None
       (Some exampleThresholds) = Some (Inr exampleLeaves)"
    by auto
  with h2 h4 show ?thesis by blast
qed

subsection \<open>Running balance accumulator\<close>


lemma writeAll_Nil [simp]: "writeAll [] obj = obj"
  by (simp add: writeAll_def)


















lemma lookup2_Nil [simp]: "lookup2 [] c k = None"
  by (simp add: lookup2_def)






end
